theory Spec2Isabelle
  imports Complex_Main
begin

section \<open>Configuration constants of app.py\<close>

text \<open>
  Clock readings (\<^verbatim>\<open>time.time()\<close>) and confidences (\<^verbatim>\<open>float(box.conf)\<close>) are
  modelled as real numbers: the code only subtracts and compares them.
\<close>

definition SNAPSHOT_DIR :: string where
  "SNAPSHOT_DIR = ''snapshots''"

definition CONFIDENCE_THRESHOLD :: real where
  "CONFIDENCE_THRESHOLD = 5 / 10"

definition ALERT_COOLDOWN :: real where
  "ALERT_COOLDOWN = 5"

section \<open>The sound manager\<close>

subsection \<open>The worker loop\<close>

text \<open>
  What the call \<^verbatim>\<open>playsound(ALERT_SOUND)\<close> does: it returns after the sound, or
  raises an \<^verbatim>\<open>Exception\<close>. What one iteration of the worker does with a request:
  nothing, a sound, or the line \<^verbatim>\<open>Audio error: ...\<close>.
\<close>

datatype playback = Returns | Raises

datatype outcome = Suppressed | Sound | Audio_Error

text \<open>
  \<^verbatim>\<open>try: playsound(ALERT_SOUND) except Exception as e: print("Audio error:", e)\<close>
\<close>

definition try_playsound :: "playback \<Rightarrow> outcome" where
  "try_playsound pb = (case pb of Returns \<Rightarrow> Sound | Raises \<Rightarrow> Audio_Error)"

text \<open>
  The body of the \<^verbatim>\<open>while True\<close> loop of \<^verbatim>\<open>_audio_worker\<close> once
  \<^verbatim>\<open>_audio_queue.get()\<close> has returned: the argument pair is the value read by
  \<^verbatim>\<open>now = time.time()\<close> and the behaviour of \<^verbatim>\<open>playsound\<close> should it be called.
  The result is what happened and the new value of \<^verbatim>\<open>last_time\<close>.
\<close>

definition audio_iter :: "real \<Rightarrow> real \<times> playback \<Rightarrow> outcome \<times> real" where
  "audio_iter last_time req =
     (let now = fst req in
      if now - last_time \<ge> ALERT_COOLDOWN
      then (try_playsound (snd req), now)
      else (Suppressed, last_time))"

text \<open>\<^verbatim>\<open>last_time = 0\<close> before the loop.\<close>

definition initial_last_time :: real where
  "initial_last_time = 0"

text \<open>
  The loop itself, run on the requests the worker dequeues, in order. It returns, for
  every request, the clock reading and what happened. The source loop never ends; the
  list is the finite sequence of requests dequeued so far.
\<close>

fun audio_loop :: "real \<Rightarrow> (real \<times> playback) list \<Rightarrow> (real \<times> outcome) list" where
  "audio_loop last_time [] = []"
| "audio_loop last_time (req # reqs) =
     (let (out, last_time') = audio_iter last_time req
      in (fst req, out) # audio_loop last_time' reqs)"

definition audio_worker :: "(real \<times> playback) list \<Rightarrow> (real \<times> outcome) list" where
  "audio_worker reqs = audio_loop initial_last_time reqs"

text \<open>The clock readings at which the cooldown test passed, and those that were heard.\<close>

definition fired :: "(real \<times> outcome) list \<Rightarrow> real list" where
  "fired entries = map fst (filter (\<lambda>e. snd e \<noteq> Suppressed) entries)"

definition audible :: "(real \<times> outcome) list \<Rightarrow> real list" where
  "audible entries = map fst (filter (\<lambda>e. snd e = Sound) entries)"

text \<open>The entries of a list of clock readings that lie in the window \<open>[w, w + d)\<close>.\<close>

definition in_window :: "real \<Rightarrow> real \<Rightarrow> real list \<Rightarrow> real list" where
  "in_window w d ts = filter (\<lambda>t. w \<le> t \<and> t < w + d) ts"

subsection \<open>The request queue\<close>

text \<open>
  \<^verbatim>\<open>_audio_queue = queue.Queue(maxsize=1)\<close>. The queue is the list of its pending
  items, oldest first. \<^verbatim>\<open>put\<close> blocks while the queue is full and \<^verbatim>\<open>get\<close>
  while it is empty: a blocked call is the value \<open>None\<close>. \<^verbatim>\<open>get\<close> removes the
  item from the queue when it returns; \<^verbatim>\<open>task_done\<close> changes nothing that
  \<^verbatim>\<open>empty\<close> reads.
\<close>

definition MAXSIZE :: nat where
  "MAXSIZE = 1"

definition queue_empty :: "nat list \<Rightarrow> bool" where
  "queue_empty q = (q = [])"

definition queue_put :: "nat list \<Rightarrow> nat \<Rightarrow> nat list option" where
  "queue_put q x = (if length q < MAXSIZE then Some (q @ [x]) else None)"

definition queue_get :: "nat list \<Rightarrow> (nat \<times> nat list) option" where
  "queue_get q = (case q of [] \<Rightarrow> None | x # q' \<Rightarrow> Some (x, q'))"

text \<open>\<^verbatim>\<open>if _audio_queue.empty(): _audio_queue.put(1)\<close>\<close>

definition play_alert :: "nat list \<Rightarrow> nat list option" where
  "play_alert q = (if queue_empty q then queue_put q 1 else Some q)"

section \<open>The frame generator\<close>

subsection \<open>Labels\<close>

text \<open>
  \<^verbatim>\<open>label.lower()\<close> on ASCII letters; every other character is left as it is.
\<close>

definition lower_char :: "char \<Rightarrow> char" where
  "lower_char c =
     (case map_of (zip ''ABCDEFGHIJKLMNOPQRSTUVWXYZ'' ''abcdefghijklmnopqrstuvwxyz'') c of
        Some d \<Rightarrow> d
      | None \<Rightarrow> c)"

definition lower :: "string \<Rightarrow> string" where
  "lower s = map lower_char s"

text \<open>\<^verbatim>\<open>s.startswith(p)\<close> and \<^verbatim>\<open>sub in s\<close> of Python strings.\<close>

fun starts_with :: "string \<Rightarrow> string \<Rightarrow> bool" where
  "starts_with s [] = True"
| "starts_with [] (p # ps) = False"
| "starts_with (c # cs) (p # ps) = (c = p \<and> starts_with cs ps)"

fun contains :: "string \<Rightarrow> string \<Rightarrow> bool" where
  "contains sub [] = (sub = [])"
| "contains sub (c # cs) = (starts_with (c # cs) sub \<or> contains sub cs)"

text \<open>
  The test of line 75:
  \<^verbatim>\<open>"helmet" in label.lower() and "no" not in label.lower()\<close>
\<close>

definition is_helmet :: "string \<Rightarrow> bool" where
  "is_helmet lbl = (contains ''helmet'' (lower lbl) \<and> \<not> contains ''no'' (lower lbl))"

text \<open>
  The rule as the specification words it, on the label itself:
  \<^verbatim>\<open>"helmet" in label and "no" not in label\<close>
\<close>

definition spec_is_helmet :: "string \<Rightarrow> bool" where
  "spec_is_helmet lbl = (contains ''helmet'' lbl \<and> \<not> contains ''no'' lbl)"

subsection \<open>The loop over the detections\<close>

text \<open>
  A box of \<^verbatim>\<open>results[0].boxes\<close>: \<^verbatim>\<open>float(box.conf)\<close>,
  \<^verbatim>\<open>model.names[int(box.cls)]\<close> and \<^verbatim>\<open>map(int, box.xyxy[0])\<close>.
\<close>

record detection =
  conf :: real
  label :: string
  xyxy :: "int \<times> int \<times> int \<times> int"

text \<open>
  The drawing calls made on the frame, in order. A colour is a BGR triple. The text of
  a box is \<^verbatim>\<open>f"{label} ({conf:.2f})"\<close>, kept as the pair it is formatted from; font and
  scale are left out.
\<close>

type_synonym colour = "nat \<times> nat \<times> nat"

datatype caption = Box_Caption string real | Helmet_Caption nat | No_Helmet_Caption nat

datatype draw =
    Rectangle "int \<times> int" "int \<times> int" colour int
  | Put_Text caption "int \<times> int" colour int

text \<open>The variables of the loop of lines 64 to 85.\<close>

record tally =
  helmet_count :: nat
  no_helmet_count :: nat
  no_helmet_detected :: bool
  drawn :: "draw list"

definition tally0 :: tally where
  "tally0 = \<lparr>helmet_count = 0, no_helmet_count = 0, no_helmet_detected = False, drawn = []\<rparr>"

definition box_overlay :: "detection \<Rightarrow> colour \<Rightarrow> draw list" where
  "box_overlay b col =
     (case xyxy b of (x1, y1, x2, y2) \<Rightarrow>
        [Rectangle (x1, y1) (x2, y2) col 2,
         Put_Text (Box_Caption (label b) (conf b)) (x1, y1 - 10) col 2])"

text \<open>One iteration of \<^verbatim>\<open>for box in detections\<close>, for the threshold \<open>thr\<close>.\<close>

definition box_body :: "real \<Rightarrow> tally \<Rightarrow> detection \<Rightarrow> tally" where
  "box_body thr t b =
     (if conf b < thr then t
      else if is_helmet (label b)
      then t\<lparr>helmet_count := helmet_count t + 1,
             drawn := drawn t @ box_overlay b (0, 255, 0)\<rparr>
      else t\<lparr>no_helmet_count := no_helmet_count t + 1,
             no_helmet_detected := True,
             drawn := drawn t @ box_overlay b (0, 0, 255)\<rparr>)"

fun box_loop :: "real \<Rightarrow> tally \<Rightarrow> detection list \<Rightarrow> tally" where
  "box_loop thr t [] = t"
| "box_loop thr t (b # bs) = box_loop thr (box_body thr t b) bs"

definition detect :: "real \<Rightarrow> detection list \<Rightarrow> tally" where
  "detect thr bs = box_loop thr tally0 bs"

text \<open>The counts box of lines 88 to 92.\<close>

definition counts_overlay :: "tally \<Rightarrow> draw list" where
  "counts_overlay t =
     [Rectangle (0, 0) (360, 90) (255, 255, 255) (- 1),
      Put_Text (Helmet_Caption (helmet_count t)) (10, 35) (0, 128, 0) 2,
      Put_Text (No_Helmet_Caption (no_helmet_count t)) (10, 70) (0, 0, 255) 2]"

subsection \<open>Snapshot file names\<close>

text \<open>
  The fields of \<^verbatim>\<open>datetime.datetime.now()\<close>, and the ranges in which
  \<^verbatim>\<open>strftime("%Y%m%d_%H%M%S")\<close> prints four digits for the year and two for every
  other field.
\<close>

record datetime =
  year :: nat
  month :: nat
  day :: nat
  hour :: nat
  minute :: nat
  second :: nat
  microsecond :: nat


definition digit :: "nat \<Rightarrow> char" where
  "digit n = ''0123456789'' ! (n mod 10)"

definition pad2 :: "nat \<Rightarrow> string" where
  "pad2 n = [digit (n div 10), digit n]"

definition pad4 :: "nat \<Rightarrow> string" where
  "pad4 n = [digit (n div 1000), digit (n div 100), digit (n div 10), digit n]"

definition strftime :: "datetime \<Rightarrow> string" where
  "strftime d =
     pad4 (year d) @ pad2 (month d) @ pad2 (day d) @ ''_''
     @ pad2 (hour d) @ pad2 (minute d) @ pad2 (second d)"

text \<open>\<^verbatim>\<open>os.path.join(a, b)\<close> with the separator \<^verbatim>\<open>/\<close>.\<close>

definition path_join :: "string \<Rightarrow> string \<Rightarrow> string" where
  "path_join a b =
     (if starts_with b ''/'' then b
      else if a = [] \<or> last a = CHR ''/'' then a @ b
      else a @ ''/'' @ b)"

text \<open>Lines 97 and 98.\<close>

definition snapshot_filename :: "datetime \<Rightarrow> string" where
  "snapshot_filename d = path_join SNAPSHOT_DIR (''no_helmet_'' @ strftime d @ ''.jpg'')"


subsection \<open>The file system and the snapshot write\<close>

text \<open>
  An image is the pixels read from the camera and the drawing calls made on them. The
  file system maps a path to a directory or to a file holding an image.
\<close>

type_synonym image = "nat list \<times> draw list"

datatype node = Dir | File image

datatype error = File_Exists_Error | Cv2_Error

text \<open>\<^verbatim>\<open>os.makedirs(p, exist_ok=True)\<close> for a path of one component.\<close>

definition makedirs :: "(string \<rightharpoonup> node) \<Rightarrow> string \<Rightarrow> error + (string \<rightharpoonup> node)" where
  "makedirs fs p =
     (case fs p of
        None \<Rightarrow> Inr (fs(p \<mapsto> Dir))
      | Some Dir \<Rightarrow> Inr fs
      | Some (File _) \<Rightarrow> Inl File_Exists_Error)"

text \<open>
  What a call of \<^verbatim>\<open>cv2.imwrite\<close> does is an input of the model: it saves the file
  and returns \<^verbatim>\<open>True\<close>, it saves nothing and returns \<^verbatim>\<open>False\<close> (as for a path
  that cannot be opened for writing), or it raises \<^verbatim>\<open>cv2.error\<close>.
\<close>

datatype imwrite_result = Saved | Not_Saved | Imwrite_Raises

definition imwrite ::
  "(string \<rightharpoonup> node) \<Rightarrow> string \<Rightarrow> image \<Rightarrow> imwrite_result \<Rightarrow> (string \<rightharpoonup> node) \<times> (error + bool)" where
  "imwrite fs filename img res =
     (case res of
        Saved \<Rightarrow> (fs(filename \<mapsto> File img), Inr True)
      | Not_Saved \<Rightarrow> (fs, Inr False)
      | Imwrite_Raises \<Rightarrow> (fs, Inl Cv2_Error))"

section \<open>The whole program\<close>

text \<open>
  The worker thread is either in or before \<^verbatim>\<open>_audio_queue.get()\<close>, or inside
  \<^verbatim>\<open>playsound\<close> with the value of \<^verbatim>\<open>now\<close> it read before.
\<close>

datatype worker = Waiting | Playing real

text \<open>
  The state the threads share or keep: the queue, the variable \<^verbatim>\<open>last_time\<close> of the
  worker and where the worker is, what the worker did with each request it dequeued, the
  file system, and the file names of the calls of \<^verbatim>\<open>cv2.imwrite\<close> made so far.
\<close>

record sys =
  audio_queue :: "nat list"
  worker_last_time :: real
  worker_at :: worker
  alerts :: "(real \<times> outcome) list"
  disk :: "string \<rightharpoonup> node"
  imwrite_calls :: "string list"

text \<open>
  The state after the module is loaded: \<^verbatim>\<open>os.makedirs(SNAPSHOT_DIR, exist_ok=True)\<close>,
  the empty queue, and the worker started with \<^verbatim>\<open>last_time = 0\<close>.
\<close>

definition startup :: "(string \<rightharpoonup> node) \<Rightarrow> error + sys" where
  "startup fs =
     (case makedirs fs SNAPSHOT_DIR of
        Inl e \<Rightarrow> Inl e
      | Inr fs' \<Rightarrow>
          Inr \<lparr>audio_queue = [], worker_last_time = initial_last_time, worker_at = Waiting,
               alerts = [], disk = fs', imwrite_calls = []\<rparr>)"

text \<open>
  What one iteration of the loop of \<^verbatim>\<open>generate_frames\<close> is given, once
  \<^verbatim>\<open>cap.read()\<close> has succeeded: the frame, the boxes the model finds in it, and, should
  line 97 be reached, the value of \<^verbatim>\<open>datetime.datetime.now()\<close> and what
  \<^verbatim>\<open>cv2.imwrite\<close> does.
\<close>

record frame_in =
  pixels :: "nat list"
  boxes :: "detection list"
  wall_clock :: datetime
  imwrite_does :: imwrite_result

text \<open>
  The frame after the drawing calls of lines 68 to 92.

  Lines 61 to 105: the new state, and the annotated frame that is yielded or the
  exception that leaves the generator. \<open>None\<close> is a thread blocked in \<^verbatim>\<open>put\<close>.
  The value \<^verbatim>\<open>cv2.imwrite\<close> returns is not read.
\<close>

definition annotated :: "frame_in \<Rightarrow> image" where
  "annotated f =
     (let t = detect CONFIDENCE_THRESHOLD (boxes f)
      in (pixels f, drawn t @ counts_overlay t))"

definition frame_body :: "sys \<Rightarrow> frame_in \<Rightarrow> (sys \<times> (error + image)) option" where
  "frame_body s f =
     (let t = detect CONFIDENCE_THRESHOLD (boxes f);
          img = annotated f
      in if no_helmet_detected t
         then (case play_alert (audio_queue s) of
                 None \<Rightarrow> None
               | Some q \<Rightarrow>
                   let filename = snapshot_filename (wall_clock f);
                       (fs, r) = imwrite (disk s) filename img (imwrite_does f);
                       s' = s\<lparr>audio_queue := q, disk := fs,
                              imwrite_calls := imwrite_calls s @ [filename]\<rparr>
                   in (case r of
                         Inl e \<Rightarrow> Some (s', Inl e)
                       | Inr _ \<Rightarrow> Some (s', Inr img)))
         else Some (s, Inr img))"

text \<open>
  The steps of the program: an iteration of the frame loop; the worker's \<^verbatim>\<open>get\<close>
  returning, followed by the reading of the clock and the cooldown test; the end of
  \<^verbatim>\<open>playsound\<close>, followed by \<^verbatim>\<open>last_time = now\<close>. A step that cannot be taken
  in a state (the thread is blocked, or is elsewhere) is \<open>None\<close>. This is the program
  with a single frame loop: between the test and the call of \<^verbatim>\<open>put\<close> in
  \<^verbatim>\<open>play_alert\<close> only the worker can run, which leaves an empty queue empty, so the
  two are one step here. The sound manager with several frame loops, where they are two
  steps, follows below.
\<close>

datatype event = Frame frame_in | Worker_Get real | Worker_Done playback

fun step :: "sys \<Rightarrow> event \<Rightarrow> sys option" where
  "step s (Frame f) = map_option fst (frame_body s f)"
| "step s (Worker_Get now) =
     (case worker_at s of
        Playing _ \<Rightarrow> None
      | Waiting \<Rightarrow>
          (case queue_get (audio_queue s) of
             None \<Rightarrow> None
           | Some (_, q) \<Rightarrow>
               if now - worker_last_time s \<ge> ALERT_COOLDOWN
               then Some (s\<lparr>audio_queue := q, worker_at := Playing now\<rparr>)
               else Some (s\<lparr>audio_queue := q, alerts := alerts s @ [(now, Suppressed)]\<rparr>)))"
| "step s (Worker_Done pb) =
     (case worker_at s of
        Waiting \<Rightarrow> None
      | Playing now \<Rightarrow>
          Some (s\<lparr>worker_at := Waiting, worker_last_time := now,
                  alerts := alerts s @ [(now, try_playsound pb)]\<rparr>))"

fun run :: "sys \<Rightarrow> event list \<Rightarrow> sys option" where
  "run s [] = Some s"
| "run s (e # es) = (case step s e of None \<Rightarrow> None | Some s' \<Rightarrow> run s' es)"

text \<open>The state after startup on an empty file system.\<close>

definition booted :: sys where
  "booted =
     \<lparr>audio_queue = [], worker_last_time = initial_last_time, worker_at = Waiting,
      alerts = [], disk = [SNAPSHOT_DIR \<mapsto> Dir], imwrite_calls = []\<rparr>"

text \<open>The frames of a run in which a box at or above the threshold is not a helmet.\<close>

fun violating :: "event \<Rightarrow> bool" where
  "violating (Frame f) = no_helmet_detected (detect CONFIDENCE_THRESHOLD (boxes f))"
| "violating (Worker_Get now) = False"
| "violating (Worker_Done pb) = False"

section \<open>The sound manager with several frame loops\<close>

text \<open>
  Every request for \<^verbatim>\<open>/video_feed\<close> runs its own \<^verbatim>\<open>generate_frames\<close> loop, and
  every loop calls \<^verbatim>\<open>play_alert\<close> on the one queue. In \<^verbatim>\<open>play_alert\<close> the test
  \<^verbatim>\<open>_audio_queue.empty()\<close> and the call \<^verbatim>\<open>_audio_queue.put(1)\<close> are two calls, and
  another thread can run between them. The state is the queue, the loops that have passed
  the test and not yet returned from \<^verbatim>\<open>put\<close>, and the worker with its
  \<^verbatim>\<open>last_time\<close> and what it did with the requests it took.
\<close>

record sound =
  slot :: "nat list"
  at_put :: "nat \<Rightarrow> bool"
  player :: worker
  player_last_time :: real
  played :: "(real \<times> outcome) list"

text \<open>
  The steps: loop \<open>i\<close> enters \<^verbatim>\<open>play_alert\<close> and evaluates the test (when the
  queue is not empty the call returns at once and the request is gone); loop \<open>i\<close>
  returns from \<^verbatim>\<open>put(1)\<close>; the worker's \<^verbatim>\<open>get\<close> returns, followed by the reading
  of the clock and the cooldown test; \<^verbatim>\<open>playsound\<close> ends, followed by
  \<^verbatim>\<open>last_time = now\<close>. \<open>None\<close> is a step that cannot be taken: the thread is
  blocked in \<^verbatim>\<open>put\<close> or \<^verbatim>\<open>get\<close>, or is elsewhere.
\<close>

datatype call = Alert_Test nat | Alert_Put nat | Queue_Get real | Play_Ends playback

fun act :: "sound \<Rightarrow> call \<Rightarrow> sound option" where
  "act s (Alert_Test i) =
     (if at_put s i then None
      else if queue_empty (slot s) then Some (s\<lparr>at_put := (at_put s)(i := True)\<rparr>)
      else Some s)"
| "act s (Alert_Put i) =
     (if at_put s i
      then (case queue_put (slot s) 1 of
              None \<Rightarrow> None
            | Some q \<Rightarrow> Some (s\<lparr>slot := q, at_put := (at_put s)(i := False)\<rparr>))
      else None)"
| "act s (Queue_Get now) =
     (case player s of
        Playing _ \<Rightarrow> None
      | Waiting \<Rightarrow>
          (case queue_get (slot s) of
             None \<Rightarrow> None
           | Some (_, q) \<Rightarrow>
               if now - player_last_time s \<ge> ALERT_COOLDOWN
               then Some (s\<lparr>slot := q, player := Playing now\<rparr>)
               else Some (s\<lparr>slot := q, played := played s @ [(now, Suppressed)]\<rparr>)))"
| "act s (Play_Ends pb) =
     (case player s of
        Waiting \<Rightarrow> None
      | Playing now \<Rightarrow>
          Some (s\<lparr>player := Waiting, player_last_time := now,
                  played := played s @ [(now, try_playsound pb)]\<rparr>))"

fun acts :: "sound \<Rightarrow> call list \<Rightarrow> sound option" where
  "acts s [] = Some s"
| "acts s (c # cs) = (case act s c of None \<Rightarrow> None | Some s' \<Rightarrow> acts s' cs)"

definition sound0 :: sound where
  "sound0 =
     \<lparr>slot = [], at_put = (\<lambda>i. False), player = Waiting,
      player_last_time = initial_last_time, played = []\<rparr>"


text \<open>
  Inputs for the examples: a frame with one box labelled \<^verbatim>\<open>no-helmet\<close> at confidence
  0.9, captured on 2024-03-05 at 14:07 and the given second, with the given behaviour of
  \<^verbatim>\<open>cv2.imwrite\<close>; and a frame with no box.
\<close>

definition sample_frame :: "nat \<Rightarrow> imwrite_result \<Rightarrow> frame_in" where
  "sample_frame sec res =
     \<lparr>pixels = [],
      boxes = [\<lparr>conf = 9 / 10, label = ''no-helmet'', xyxy = (1, 2, 3, 4)\<rparr>],
      wall_clock = \<lparr>year = 2024, month = 3, day = 5, hour = 14, minute = 7, second = sec,
                    microsecond = 0\<rparr>,
      imwrite_does = res\<rparr>"

definition empty_frame :: frame_in where
  "empty_frame = (sample_frame 0 Saved)\<lparr>boxes := []\<rparr>"

section \<open>Properties of the worker\<close>

lemma fired_loop_lower:
  "t \<in> set (fired (audio_loop last_time reqs)) \<Longrightarrow> last_time + ALERT_COOLDOWN \<le> t"
proof (induction reqs arbitrary: last_time)
  case Nil
  then show ?case by (simp add: fired_def)
next
  case (Cons req reqs)
  show ?case
  proof (cases "fst req - last_time \<ge> ALERT_COOLDOWN")
    case True
    then have step: "audio_iter last_time req = (try_playsound (snd req), fst req)"
      by (simp add: audio_iter_def Let_def)
    from Cons.prems step
    have "t = fst req \<or> t \<in> set (fired (audio_loop (fst req) reqs))"
      by (auto simp: fired_def split: if_splits)
    then show ?thesis
    proof
      assume "t = fst req"
      with True show ?thesis by simp
    next
      assume "t \<in> set (fired (audio_loop (fst req) reqs))"
      then have "fst req + ALERT_COOLDOWN \<le> t" by (rule Cons.IH)
      with True show ?thesis by (simp add: ALERT_COOLDOWN_def)
    qed
  next
    case False
    then have step: "audio_iter last_time req = (Suppressed, last_time)"
      by (simp add: audio_iter_def Let_def)
    from Cons.prems step have "t \<in> set (fired (audio_loop last_time reqs))"
      by (simp add: fired_def)
    then show ?thesis by (rule Cons.IH)
  qed
qed

lemma fired_loop_window:
  "length (in_window w ALERT_COOLDOWN (fired (audio_loop last_time reqs))) \<le> 1"
proof (induction reqs arbitrary: last_time)
  case Nil
  show ?case by (simp add: fired_def in_window_def)
next
  case (Cons req reqs)
  show ?case
  proof (cases "fst req - last_time \<ge> ALERT_COOLDOWN")
    case True
    then have step: "audio_iter last_time req = (try_playsound (snd req), fst req)"
      by (simp add: audio_iter_def Let_def)
    have ns: "try_playsound (snd req) \<noteq> Suppressed"
      by (simp add: try_playsound_def split: playback.splits)
    have unfold: "fired (audio_loop last_time (req # reqs))
        = fst req # fired (audio_loop (fst req) reqs)"
      using step ns by (simp add: fired_def)
    show ?thesis
    proof (cases "w \<le> fst req \<and> fst req < w + ALERT_COOLDOWN")
      case inside: True
      have "\<forall>t \<in> set (fired (audio_loop (fst req) reqs)). \<not> (w \<le> t \<and> t < w + ALERT_COOLDOWN)"
      proof
        fix t assume "t \<in> set (fired (audio_loop (fst req) reqs))"
        then have "fst req + ALERT_COOLDOWN \<le> t" by (rule fired_loop_lower)
        with inside show "\<not> (w \<le> t \<and> t < w + ALERT_COOLDOWN)" by simp
      qed
      then have "in_window w ALERT_COOLDOWN (fired (audio_loop (fst req) reqs)) = []"
        by (simp add: in_window_def filter_empty_conv)
      with unfold inside show ?thesis by (simp add: in_window_def)
    next
      case False
      with unfold have "in_window w ALERT_COOLDOWN (fired (audio_loop last_time (req # reqs)))
          = in_window w ALERT_COOLDOWN (fired (audio_loop (fst req) reqs))"
        by (simp add: in_window_def)
      with Cons.IH show ?thesis by simp
    qed
  next
    case False
    then have step: "audio_iter last_time req = (Suppressed, last_time)"
      by (simp add: audio_iter_def Let_def)
    then have "fired (audio_loop last_time (req # reqs)) = fired (audio_loop last_time reqs)"
      by (simp add: fired_def)
    with Cons.IH show ?thesis by simp
  qed
qed

lemma audible_sublist_fired:
  "length (in_window w d (audible entries)) \<le> length (in_window w d (fired entries))"
proof (induction entries)
  case Nil
  show ?case by (simp add: audible_def fired_def in_window_def)
next
  case (Cons e entries)
  then show ?case by (cases "snd e") (auto simp: audible_def fired_def in_window_def)
qed

text \<open>
  Claim C1. Whatever requests the worker dequeues, with whatever clock readings (they
  need not even increase) and whether or not playback succeeds, at most one alert
  fires, and so at most one is heard, with a clock reading inside any window
  \<open>[w, w + ALERT_COOLDOWN)\<close> of the length of the cooldown.
\<close>

theorem one_alert_per_cooldown_window:
  "length (in_window w ALERT_COOLDOWN (fired (audio_worker reqs))) \<le> 1
   \<and> length (in_window w ALERT_COOLDOWN (audible (audio_worker reqs))) \<le> 1"
proof -
  have f: "length (in_window w ALERT_COOLDOWN (fired (audio_worker reqs))) \<le> 1"
    unfolding audio_worker_def by (rule fired_loop_window)
  have "length (in_window w ALERT_COOLDOWN (audible (audio_worker reqs)))
      \<le> length (in_window w ALERT_COOLDOWN (fired (audio_worker reqs)))"
    by (rule audible_sublist_fired)
  with f show ?thesis by simp
qed

lemma audio_iter_fire:
  "ALERT_COOLDOWN \<le> now - last_time \<Longrightarrow>
     audio_iter last_time (now, pb) = (try_playsound pb, now)"
  by (simp add: audio_iter_def)

lemma audio_iter_suppress:
  "\<not> ALERT_COOLDOWN \<le> now - last_time \<Longrightarrow>
     audio_iter last_time (now, pb) = (Suppressed, last_time)"
  by (simp add: audio_iter_def)

lemma try_playsound_not_suppressed: "try_playsound pb \<noteq> Suppressed"
  by (cases pb) (simp_all add: try_playsound_def)

lemma audio_loop_suppressed_prefix:
  "\<forall>r \<in> set mid. fst r < last_time + ALERT_COOLDOWN \<Longrightarrow>
     audio_loop last_time (mid @ rest)
       = map (\<lambda>r. (fst r, Suppressed)) mid @ audio_loop last_time rest"
proof (induction mid)
  case Nil
  show ?case by simp
next
  case (Cons r mid)
  obtain now pb where r: "r = (now, pb)" by (cases r)
  from Cons.prems r have "\<not> ALERT_COOLDOWN \<le> now - last_time" by simp
  then have "audio_iter last_time r = (Suppressed, last_time)"
    unfolding r by (rule audio_iter_suppress)
  with Cons show ?case by simp
qed

lemma length_audio_loop: "length (audio_loop last_time reqs) = length reqs"
  by (induction reqs arbitrary: last_time) (simp_all add: split_beta Let_def)

text \<open>
  Claim C2. The worker's \<^verbatim>\<open>last_time\<close> starts at 0 and the cooldown is 5. A
  request read at \<open>now\<close> fires exactly when \<open>now - last_time \<ge> ALERT_COOLDOWN\<close>;
  then \<^verbatim>\<open>last_time\<close> becomes \<open>now\<close>, and otherwise it keeps its value. After a
  fire at 0, requests at 1, 2, 3 and 4 are suppressed and one at 5 or later fires; the
  same holds from the initial state, whose \<^verbatim>\<open>last_time\<close> is the one a fire at 0
  leaves. From the initial state a first request fires when the clock reads at least the
  cooldown, as every reading of \<^verbatim>\<open>time.time()\<close> does.
\<close>

theorem debounce_rule:
  "initial_last_time = 0 \<and> ALERT_COOLDOWN = 5
   \<and> (fst (audio_iter last_time (now, pb)) \<noteq> Suppressed \<longleftrightarrow> now - last_time \<ge> ALERT_COOLDOWN)
   \<and> snd (audio_iter last_time (now, pb))
       = (if now - last_time \<ge> ALERT_COOLDOWN then now else last_time)
   \<and> (fst (audio_iter last_time (0, pb)) \<noteq> Suppressed \<and> 5 \<le> t \<longrightarrow>
        map snd (audio_loop last_time [(0, pb), (1, p1), (2, p2), (3, p3), (4, p4), (t, p5)])
          = [try_playsound pb, Suppressed, Suppressed, Suppressed, Suppressed, try_playsound p5])
   \<and> (5 \<le> t \<longrightarrow>
        map snd (audio_worker [(1, p1), (2, p2), (3, p3), (4, p4), (t, p5)])
          = [Suppressed, Suppressed, Suppressed, Suppressed, try_playsound p5])
   \<and> (ALERT_COOLDOWN \<le> now \<longrightarrow> audio_worker [(now, pb)] = [(now, try_playsound pb)])"
  by (simp add: initial_last_time_def ALERT_COOLDOWN_def audio_iter_def audio_worker_def
      try_playsound_not_suppressed)

theorem debounce_rule_witness:
  "fst (audio_iter (- 5) (0, Returns)) \<noteq> Suppressed
   \<and> map snd (audio_loop (- 5) [(0, Returns), (1, Returns), (2, Returns), (3, Returns), (4, Returns), (5, Returns)])
       = [Sound, Suppressed, Suppressed, Suppressed, Suppressed, Sound]
   \<and> map snd (audio_worker [(1, Returns), (2, Returns), (3, Returns), (4, Returns), (5, Returns)])
       = [Suppressed, Suppressed, Suppressed, Suppressed, Sound]"
  using debounce_rule [of "- 5" 0 Returns 5 Returns Returns Returns Returns Returns]
  by (simp add: try_playsound_def ALERT_COOLDOWN_def audio_iter_def audio_worker_def
      initial_last_time_def)

text \<open>
  Claim C8, as stated, fails: after a fire at 100 a clock that reads 50, 60 and then 104
  gets every request suppressed; the negative elapsed time is not clamped.
\<close>

theorem clock_backward_counterexample:
  "map snd (audio_worker [(100, Returns), (50, Returns), (60, Returns), (104, Returns)])
     = [Sound, Suppressed, Suppressed, Suppressed]"
  by (simp add: try_playsound_def ALERT_COOLDOWN_def audio_iter_def audio_worker_def
      initial_last_time_def)

text \<open>
  Claim C8, amended. When the clock reads less than \<^verbatim>\<open>last_time\<close>, the request is
  suppressed and \<^verbatim>\<open>last_time\<close> is unchanged; so is every following request whose
  reading is below \<open>last_time + ALERT_COOLDOWN\<close>; the first request whose reading
  reaches \<open>last_time + ALERT_COOLDOWN\<close> fires, so the suppression ends once the clock
  has caught up.
\<close>

theorem clock_backward_suppressed_until_caught_up:
  assumes "now < last_time"
  shows "audio_iter last_time (now, pb) = (Suppressed, last_time)
    \<and> ((\<forall>r \<in> set mid. fst r < last_time + ALERT_COOLDOWN) \<longrightarrow>
           audio_loop last_time ((now, pb) # mid @ rest)
             = (now, Suppressed) # map (\<lambda>r. (fst r, Suppressed)) mid @ audio_loop last_time rest)
    \<and> (last_time + ALERT_COOLDOWN \<le> now' \<longrightarrow>
           audio_loop last_time ((now', pb') # rest')
             = (now', try_playsound pb') # audio_loop now' rest'
           \<and> try_playsound pb' \<noteq> Suppressed)"
proof -
  from assms have "\<not> ALERT_COOLDOWN \<le> now - last_time"
    by (simp add: ALERT_COOLDOWN_def)
  then have one: "audio_iter last_time (now, pb) = (Suppressed, last_time)"
    by (rule audio_iter_suppress)
  have two: "(\<forall>r \<in> set mid. fst r < last_time + ALERT_COOLDOWN) \<longrightarrow>
           audio_loop last_time ((now, pb) # mid @ rest)
             = (now, Suppressed) # map (\<lambda>r. (fst r, Suppressed)) mid @ audio_loop last_time rest"
    using one by (simp add: audio_loop_suppressed_prefix)
  have three: "last_time + ALERT_COOLDOWN \<le> now' \<longrightarrow>
           audio_loop last_time ((now', pb') # rest')
             = (now', try_playsound pb') # audio_loop now' rest'
           \<and> try_playsound pb' \<noteq> Suppressed"
    by (simp add: audio_iter_fire try_playsound_not_suppressed)
  from one two three show ?thesis by blast
qed

theorem clock_backward_witness:
  "(50::real) < 100
   \<and> audio_iter 100 (50, Returns) = (Suppressed, 100)
   \<and> audio_loop 100 [(50, Returns), (60, Returns), (104, Returns), (105, Returns)]
       = [(50, Suppressed), (60, Suppressed), (104, Suppressed), (105, Sound)]"
proof -
  have h: "(50::real) < 100" by simp
  have t: "audio_iter 100 (50, Returns) = (Suppressed, 100)
    \<and> ((\<forall>r \<in> set [(60, Returns), (104, Returns)]. fst r < 100 + ALERT_COOLDOWN) \<longrightarrow>
           audio_loop 100 ((50, Returns) # [(60, Returns), (104, Returns)] @ [(105, Returns)])
             = (50, Suppressed) # map (\<lambda>r. (fst r, Suppressed)) [(60, Returns), (104, Returns)]
               @ audio_loop 100 [(105, Returns)])
    \<and> (100 + ALERT_COOLDOWN \<le> 105 \<longrightarrow>
           audio_loop 100 ((105, Returns) # [])
             = (105, try_playsound Returns) # audio_loop 105 []
           \<and> try_playsound Returns \<noteq> Suppressed)"
    by (rule clock_backward_suppressed_until_caught_up [OF h])
  from h t show ?thesis
    by (simp add: audio_iter_def ALERT_COOLDOWN_def try_playsound_def)
qed

text \<open>
  Claim C10. When a request passes the cooldown test and \<^verbatim>\<open>playsound\<close> raises, the
  error is printed, \<^verbatim>\<open>last_time\<close> becomes \<open>now\<close> as it does when the sound is
  played, and the loop goes on with the remaining requests; the next request fires
  exactly when its reading is at least \<open>now + ALERT_COOLDOWN\<close>, never earlier.
\<close>

theorem failed_playback_consumes_cooldown:
  assumes "now - last_time \<ge> ALERT_COOLDOWN"
  shows "audio_iter last_time (now, Raises) = (Audio_Error, now)
    \<and> snd (audio_iter last_time (now, Raises)) = snd (audio_iter last_time (now, Returns))
    \<and> audio_loop last_time ((now, Raises) # rest) = (now, Audio_Error) # audio_loop now rest
    \<and> length (audio_loop last_time ((now, Raises) # rest)) = Suc (length rest)
    \<and> (fst (audio_iter now (now', pb')) \<noteq> Suppressed \<longleftrightarrow> now + ALERT_COOLDOWN \<le> now')"
proof -
  from assms have one: "audio_iter last_time (now, Raises) = (Audio_Error, now)"
    by (simp add: audio_iter_fire try_playsound_def)
  from assms
  have two: "snd (audio_iter last_time (now, Raises)) = snd (audio_iter last_time (now, Returns))"
    by (simp add: audio_iter_fire)
  from one
  have three: "audio_loop last_time ((now, Raises) # rest) = (now, Audio_Error) # audio_loop now rest"
    by simp
  have four: "length (audio_loop last_time ((now, Raises) # rest)) = Suc (length rest)"
    unfolding length_audio_loop by simp
  have five: "fst (audio_iter now (now', pb')) \<noteq> Suppressed \<longleftrightarrow> now + ALERT_COOLDOWN \<le> now'"
    by (cases "ALERT_COOLDOWN \<le> now' - now")
       (auto simp: audio_iter_fire audio_iter_suppress try_playsound_not_suppressed)
  from one two three four five show ?thesis by blast
qed

theorem failed_playback_witness:
  "(10::real) - 0 \<ge> ALERT_COOLDOWN
   \<and> audio_worker [(10, Raises), (12, Returns), (14.9, Returns), (15, Returns)]
       = [(10, Audio_Error), (12, Suppressed), (14.9, Suppressed), (15, Sound)]"
proof -
  have h: "(10::real) - 0 \<ge> ALERT_COOLDOWN" by (simp add: ALERT_COOLDOWN_def)
  have "audio_loop 0 ((10, Raises) # [(12, Returns), (14.9, Returns), (15, Returns)])
      = (10, Audio_Error) # audio_loop 10 [(12, Returns), (14.9, Returns), (15, Returns)]"
    using failed_playback_consumes_cooldown [OF h] by blast
  with h show ?thesis
    by (simp add: audio_worker_def initial_last_time_def audio_iter_def ALERT_COOLDOWN_def
        try_playsound_def)
qed

section \<open>Properties of the classification\<close>

lemma starts_with_iff: "starts_with s p \<longleftrightarrow> (\<exists>t. s = p @ t)"
  by (induction s p rule: starts_with.induct) auto

lemma contains_iff: "contains sub s \<longleftrightarrow> (\<exists>p t. s = p @ sub @ t)"
proof (induction s)
  case Nil
  show ?case by auto
next
  case (Cons c cs)
  show ?case
  proof
    assume "contains sub (c # cs)"
    then consider "starts_with (c # cs) sub" | "contains sub cs" by auto
    then show "\<exists>p t. c # cs = p @ sub @ t"
    proof cases
      case 1
      then obtain t where "c # cs = sub @ t" by (auto simp: starts_with_iff)
      then have "c # cs = [] @ sub @ t" by simp
      then show ?thesis by blast
    next
      case 2
      with Cons.IH obtain p t where "cs = p @ sub @ t" by auto
      then have "c # cs = (c # p) @ sub @ t" by simp
      then show ?thesis by blast
    qed
  next
    assume "\<exists>p t. c # cs = p @ sub @ t"
    then obtain p t where e: "c # cs = p @ sub @ t" by auto
    show "contains sub (c # cs)"
    proof (cases p)
      case Nil
      with e have "starts_with (c # cs) sub" by (auto simp: starts_with_iff)
      then show ?thesis by simp
    next
      case (Cons a p')
      with e have "cs = p' @ sub @ t" by simp
      with Cons.IH have "contains sub cs" by auto
      then show ?thesis by simp
    qed
  qed
qed

lemma box_body_below: "conf b < thr \<Longrightarrow> box_body thr t b = t"
  by (simp add: box_body_def)

lemma box_loop_filter:
  "box_loop thr t bs = box_loop thr t (filter (\<lambda>b. \<not> conf b < thr) bs)"
  by (induction bs arbitrary: t) (simp_all add: box_body_below)

lemma box_loop_append: "box_loop thr t (bs @ cs) = box_loop thr (box_loop thr t bs) cs"
  by (induction bs arbitrary: t) simp_all

lemma helmet_count_loop:
  "helmet_count (box_loop thr t bs)
     = helmet_count t + length (filter (\<lambda>b. thr \<le> conf b \<and> is_helmet (label b)) bs)"
  by (induction bs arbitrary: t) (auto simp: box_body_def)

lemma no_helmet_count_loop:
  "no_helmet_count (box_loop thr t bs)
     = no_helmet_count t + length (filter (\<lambda>b. thr \<le> conf b \<and> \<not> is_helmet (label b)) bs)"
  by (induction bs arbitrary: t) (auto simp: box_body_def)

lemma no_helmet_detected_loop:
  "no_helmet_detected (box_loop thr t bs)
     \<longleftrightarrow> no_helmet_detected t \<or> (\<exists>b \<in> set bs. thr \<le> conf b \<and> \<not> is_helmet (label b))"
  by (induction bs arbitrary: t) (auto simp: box_body_def)

lemma drawn_loop:
  "drawn (box_loop thr t bs)
     = drawn t @ concat (map (\<lambda>b. box_overlay b (if is_helmet (label b) then (0, 255, 0) else (0, 0, 255)))
                          (filter (\<lambda>b. thr \<le> conf b) bs))"
  by (induction bs arbitrary: t) (auto simp: box_body_def)

lemma count_split:
  "length (filter (\<lambda>b. P b \<and> Q b) bs) + length (filter (\<lambda>b. P b \<and> \<not> Q b) bs)
     = length (filter P bs)"
  by (induction bs) auto


lemma detect_filter: "detect thr bs = detect thr (filter (\<lambda>b. \<not> conf b < thr) bs)"
  unfolding detect_def by (rule box_loop_filter)

lemma frame_body_boxes:
  "detect CONFIDENCE_THRESHOLD (boxes f) = detect CONFIDENCE_THRESHOLD (boxes g) \<Longrightarrow>
   pixels f = pixels g \<Longrightarrow> wall_clock f = wall_clock g \<Longrightarrow> imwrite_does f = imwrite_does g \<Longrightarrow>
   frame_body s f = frame_body s g"
  by (simp add: frame_body_def annotated_def Let_def split: option.split)

text \<open>
  Claim C5. For every threshold \<open>T\<close> and every list of boxes, the boxes whose
  confidence is strictly below \<open>T\<close> can be removed from the list, or inserted
  anywhere in it, without changing the counts, the violation flag or the overlays; the
  overlays drawn are those of the boxes at or above \<open>T\<close>; and the frame loop, with
  its threshold, queues the same alert and writes the same snapshot with or without them:
  a frame whose boxes are all below the threshold changes nothing.
\<close>

theorem below_threshold_ignored:
  "detect T bs = detect T (filter (\<lambda>b. \<not> conf b < T) bs)
   \<and> (conf b < T \<longrightarrow> detect T (bs1 @ b # bs2) = detect T (bs1 @ bs2))
   \<and> drawn (detect T bs)
       = concat (map (\<lambda>b. box_overlay b (if is_helmet (label b) then (0, 255, 0) else (0, 0, 255)))
                     (filter (\<lambda>b. T \<le> conf b) bs))
   \<and> ((\<forall>b \<in> set bs. conf b < T) \<longrightarrow> detect T bs = tally0)
   \<and> frame_body s f
       = frame_body s (f\<lparr>boxes := filter (\<lambda>b. \<not> conf b < CONFIDENCE_THRESHOLD) (boxes f)\<rparr>)
   \<and> ((\<forall>b \<in> set (boxes f). conf b < CONFIDENCE_THRESHOLD) \<longrightarrow>
        frame_body s f = Some (s, Inr (pixels f, counts_overlay tally0)))"
proof -
  have one: "detect T bs = detect T (filter (\<lambda>b. \<not> conf b < T) bs)"
    by (rule detect_filter)
  have two: "conf b < T \<longrightarrow> detect T (bs1 @ b # bs2) = detect T (bs1 @ bs2)"
  proof
    assume "conf b < T"
    then have "filter (\<lambda>b. \<not> conf b < T) (bs1 @ b # bs2) = filter (\<lambda>b. \<not> conf b < T) (bs1 @ bs2)"
      by simp
    then show "detect T (bs1 @ b # bs2) = detect T (bs1 @ bs2)"
      using detect_filter [of T "bs1 @ b # bs2"] detect_filter [of T "bs1 @ bs2"] by simp
  qed
  have three: "drawn (detect T bs)
       = concat (map (\<lambda>b. box_overlay b (if is_helmet (label b) then (0, 255, 0) else (0, 0, 255)))
                     (filter (\<lambda>b. T \<le> conf b) bs))"
    by (simp add: detect_def drawn_loop tally0_def)
  have none: "(\<forall>b \<in> set bs. conf b < T) \<Longrightarrow> detect T bs = tally0" for T bs
  proof -
    assume "\<forall>b \<in> set bs. conf b < T"
    then have "filter (\<lambda>b. \<not> conf b < T) bs = []" by (simp add: filter_empty_conv)
    with detect_filter [of T bs] show "detect T bs = tally0" by (simp add: detect_def)
  qed
  have five: "frame_body s f
       = frame_body s (f\<lparr>boxes := filter (\<lambda>b. \<not> conf b < CONFIDENCE_THRESHOLD) (boxes f)\<rparr>)"
    by (rule frame_body_boxes) (simp_all add: detect_filter [symmetric])
  have six: "(\<forall>b \<in> set (boxes f). conf b < CONFIDENCE_THRESHOLD) \<longrightarrow>
        frame_body s f = Some (s, Inr (pixels f, counts_overlay tally0))"
  proof
    assume "\<forall>b \<in> set (boxes f). conf b < CONFIDENCE_THRESHOLD"
    then have "detect CONFIDENCE_THRESHOLD (boxes f) = tally0" by (rule none)
    then show "frame_body s f = Some (s, Inr (pixels f, counts_overlay tally0))"
      by (simp add: frame_body_def annotated_def tally0_def)
  qed
  from one two three none [of bs T] five six show ?thesis by blast
qed

theorem below_threshold_ignored_witness:
  "conf \<lparr>conf = 4 / 10, label = ''no-helmet'', xyxy = (1, 2, 3, 4)\<rparr> < CONFIDENCE_THRESHOLD
   \<and> list_all (\<lambda>b. conf b < CONFIDENCE_THRESHOLD)
        [\<lparr>conf = 4 / 10, label = ''no-helmet'', xyxy = (1, 2, 3, 4)\<rparr>]
   \<and> detect CONFIDENCE_THRESHOLD [\<lparr>conf = 4 / 10, label = ''no-helmet'', xyxy = (1, 2, 3, 4)\<rparr>]
       = tally0
   \<and> detect CONFIDENCE_THRESHOLD
        [\<lparr>conf = 9 / 10, label = ''helmet'', xyxy = (5, 6, 7, 8)\<rparr>,
         \<lparr>conf = 4 / 10, label = ''no-helmet'', xyxy = (1, 2, 3, 4)\<rparr>]
       = detect CONFIDENCE_THRESHOLD [\<lparr>conf = 9 / 10, label = ''helmet'', xyxy = (5, 6, 7, 8)\<rparr>]"
  using below_threshold_ignored
    [of CONFIDENCE_THRESHOLD "[\<lparr>conf = 4 / 10, label = ''no-helmet'', xyxy = (1, 2, 3, 4)\<rparr>]"
        "\<lparr>conf = 4 / 10, label = ''no-helmet'', xyxy = (1, 2, 3, 4)\<rparr>"
        "[\<lparr>conf = 9 / 10, label = ''helmet'', xyxy = (5, 6, 7, 8)\<rparr>]" "[]"]
  by (simp add: CONFIDENCE_THRESHOLD_def detect_def box_body_def tally0_def is_helmet_def
      lower_def lower_char_def)

text \<open>
  Claim C6, as stated, fails: the label \<^verbatim>\<open>Helmet\<close> does not contain \<^verbatim>\<open>helmet\<close>,
  yet a box with this label is counted as a helmet and raises no flag; the label
  \<^verbatim>\<open>NO helmet\<close> contains \<^verbatim>\<open>helmet\<close> and not \<^verbatim>\<open>no\<close>, yet it is counted as a
  violation. The code tests the label in lower case.
\<close>

theorem label_case_counterexample:
  "\<not> spec_is_helmet ''Helmet''
   \<and> helmet_count (detect CONFIDENCE_THRESHOLD
        [\<lparr>conf = 9 / 10, label = ''Helmet'', xyxy = (1, 2, 3, 4)\<rparr>]) = 1
   \<and> \<not> no_helmet_detected (detect CONFIDENCE_THRESHOLD
        [\<lparr>conf = 9 / 10, label = ''Helmet'', xyxy = (1, 2, 3, 4)\<rparr>])
   \<and> spec_is_helmet ''NO helmet''
   \<and> no_helmet_count (detect CONFIDENCE_THRESHOLD
        [\<lparr>conf = 9 / 10, label = ''NO helmet'', xyxy = (1, 2, 3, 4)\<rparr>]) = 1
   \<and> no_helmet_detected (detect CONFIDENCE_THRESHOLD
        [\<lparr>conf = 9 / 10, label = ''NO helmet'', xyxy = (1, 2, 3, 4)\<rparr>])"
  by (simp add: spec_is_helmet_def is_helmet_def lower_def lower_char_def detect_def
      box_body_def tally0_def CONFIDENCE_THRESHOLD_def)

text \<open>
  Claim C6, amended. A box at or above the threshold is counted as a helmet exactly when
  its label in lower case contains \<^verbatim>\<open>helmet\<close> and does not contain \<^verbatim>\<open>no\<close>, and as
  a violation otherwise; the two counts add up to the number of boxes at or above the
  threshold; and the violation flag is set exactly when one of these boxes is a
  violation, that is when the violation count is positive.
\<close>

theorem classification_partition:
  "helmet_count (detect T bs)
     = length (filter (\<lambda>b. T \<le> conf b \<and> is_helmet (label b)) bs)
   \<and> no_helmet_count (detect T bs)
     = length (filter (\<lambda>b. T \<le> conf b \<and> \<not> is_helmet (label b)) bs)
   \<and> helmet_count (detect T bs) + no_helmet_count (detect T bs)
     = length (filter (\<lambda>b. T \<le> conf b) bs)
   \<and> (no_helmet_detected (detect T bs)
        \<longleftrightarrow> (\<exists>b \<in> set bs. T \<le> conf b \<and> \<not> is_helmet (label b)))
   \<and> (no_helmet_detected (detect T bs) \<longleftrightarrow> 0 < no_helmet_count (detect T bs))
   \<and> (is_helmet lbl
        \<longleftrightarrow> (\<exists>p t. lower lbl = p @ ''helmet'' @ t) \<and> \<not> (\<exists>p t. lower lbl = p @ ''no'' @ t))"
proof -
  have h: "helmet_count (detect T bs)
     = length (filter (\<lambda>b. T \<le> conf b \<and> is_helmet (label b)) bs)"
    by (simp add: detect_def helmet_count_loop tally0_def)
  have n: "no_helmet_count (detect T bs)
     = length (filter (\<lambda>b. T \<le> conf b \<and> \<not> is_helmet (label b)) bs)"
    by (simp add: detect_def no_helmet_count_loop tally0_def)
  have p: "helmet_count (detect T bs) + no_helmet_count (detect T bs)
     = length (filter (\<lambda>b. T \<le> conf b) bs)"
    unfolding h n by (rule count_split)
  have d: "no_helmet_detected (detect T bs)
        \<longleftrightarrow> (\<exists>b \<in> set bs. T \<le> conf b \<and> \<not> is_helmet (label b))"
    by (simp add: detect_def no_helmet_detected_loop tally0_def)
  have c: "no_helmet_detected (detect T bs) \<longleftrightarrow> 0 < no_helmet_count (detect T bs)"
    unfolding d n by (auto simp: filter_empty_conv)
  have l: "is_helmet lbl
        \<longleftrightarrow> (\<exists>p t. lower lbl = p @ ''helmet'' @ t) \<and> \<not> (\<exists>p t. lower lbl = p @ ''no'' @ t)"
    unfolding is_helmet_def contains_iff ..
  from h n p d c l show ?thesis by blast
qed

theorem classification_partition_witness:
  "(\<exists>b \<in> set [\<lparr>conf = 9 / 10, label = ''Helmet'', xyxy = (1, 2, 3, 4)\<rparr>,
               \<lparr>conf = 5 / 10, label = ''no-helmet'', xyxy = (5, 6, 7, 8)\<rparr>,
               \<lparr>conf = 4 / 10, label = ''no-helmet'', xyxy = (0, 0, 9, 9)\<rparr>].
       CONFIDENCE_THRESHOLD \<le> conf b \<and> \<not> is_helmet (label b))
   \<and> helmet_count (detect CONFIDENCE_THRESHOLD
        [\<lparr>conf = 9 / 10, label = ''Helmet'', xyxy = (1, 2, 3, 4)\<rparr>,
         \<lparr>conf = 5 / 10, label = ''no-helmet'', xyxy = (5, 6, 7, 8)\<rparr>,
         \<lparr>conf = 4 / 10, label = ''no-helmet'', xyxy = (0, 0, 9, 9)\<rparr>]) = 1
   \<and> no_helmet_count (detect CONFIDENCE_THRESHOLD
        [\<lparr>conf = 9 / 10, label = ''Helmet'', xyxy = (1, 2, 3, 4)\<rparr>,
         \<lparr>conf = 5 / 10, label = ''no-helmet'', xyxy = (5, 6, 7, 8)\<rparr>,
         \<lparr>conf = 4 / 10, label = ''no-helmet'', xyxy = (0, 0, 9, 9)\<rparr>]) = 1
   \<and> no_helmet_detected (detect CONFIDENCE_THRESHOLD
        [\<lparr>conf = 9 / 10, label = ''Helmet'', xyxy = (1, 2, 3, 4)\<rparr>,
         \<lparr>conf = 5 / 10, label = ''no-helmet'', xyxy = (5, 6, 7, 8)\<rparr>,
         \<lparr>conf = 4 / 10, label = ''no-helmet'', xyxy = (0, 0, 9, 9)\<rparr>])"
  using classification_partition
    [of CONFIDENCE_THRESHOLD
        "[\<lparr>conf = 9 / 10, label = ''Helmet'', xyxy = (1, 2, 3, 4)\<rparr>,
          \<lparr>conf = 5 / 10, label = ''no-helmet'', xyxy = (5, 6, 7, 8)\<rparr>,
          \<lparr>conf = 4 / 10, label = ''no-helmet'', xyxy = (0, 0, 9, 9)\<rparr>]" "''Helmet''"]
  by (simp add: CONFIDENCE_THRESHOLD_def is_helmet_def lower_def lower_char_def detect_def
      box_body_def tally0_def)

section \<open>Properties of the snapshot file names\<close>



















section \<open>Properties of the whole program\<close>

lemma play_alert_eq: "play_alert q = Some (if q = [] then [1] else q)"
  by (simp add: play_alert_def queue_empty_def queue_put_def MAXSIZE_def)

lemma startup_empty: "startup Map.empty = Inr booted"
  by (simp add: startup_def makedirs_def booted_def)

lemma frame_body_quiet:
  "\<not> violating (Frame f) \<Longrightarrow> frame_body s f = Some (s, Inr (annotated f))"
  by (simp add: frame_body_def)

lemma frame_body_violating:
  "violating (Frame f) \<Longrightarrow>
   frame_body s f =
     Some (s\<lparr>audio_queue := (if audio_queue s = [] then [1] else audio_queue s),
             disk := fst (imwrite (disk s) (snapshot_filename (wall_clock f)) (annotated f)
                            (imwrite_does f)),
             imwrite_calls := imwrite_calls s @ [snapshot_filename (wall_clock f)]\<rparr>,
           case imwrite_does f of Imwrite_Raises \<Rightarrow> Inl Cv2_Error | _ \<Rightarrow> Inr (annotated f))"
  by (cases "imwrite_does f") (simp_all add: frame_body_def play_alert_eq imwrite_def Let_def)

lemma step_frame_calls:
  "step s (Frame f) = Some s' \<Longrightarrow>
   imwrite_calls s' = imwrite_calls s
      @ (if violating (Frame f) then [snapshot_filename (wall_clock f)] else [])"
  by (cases "violating (Frame f)") (auto simp: frame_body_quiet frame_body_violating)

lemma step_worker_calls:
  "step s (Worker_Get now) = Some s' \<Longrightarrow> imwrite_calls s' = imwrite_calls s"
  "step s (Worker_Done pb) = Some s' \<Longrightarrow> imwrite_calls s' = imwrite_calls s"
  by (auto split: worker.splits option.splits if_splits)

lemma step_calls:
  "step s e = Some s' \<Longrightarrow>
   length (imwrite_calls s') = length (imwrite_calls s) + (if violating e then 1 else 0)"
proof (cases e)
  case (Frame f)
  assume "step s e = Some s'"
  with Frame have "step s (Frame f) = Some s'" by simp
  from step_frame_calls [OF this] Frame show ?thesis by simp
next
  case (Worker_Get now)
  assume "step s e = Some s'"
  with Worker_Get have "step s (Worker_Get now) = Some s'" by simp
  from step_worker_calls(1) [OF this] Worker_Get show ?thesis by simp
next
  case (Worker_Done pb)
  assume "step s e = Some s'"
  with Worker_Done have "step s (Worker_Done pb) = Some s'" by simp
  from step_worker_calls(2) [OF this] Worker_Done show ?thesis by simp
qed

lemma run_calls:
  "run s evs = Some s' \<Longrightarrow>
   length (imwrite_calls s') = length (imwrite_calls s) + length (filter violating evs)"
proof (induction evs arbitrary: s)
  case Nil
  then show ?case by simp
next
  case (Cons e evs)
  from Cons.prems obtain s1 where s1: "step s e = Some s1" and r: "run s1 evs = Some s'"
    by (auto split: option.splits)
  from Cons.IH [OF r] step_calls [OF s1] show ?case by simp
qed

lemma violating_sample: "violating (Frame (sample_frame sec res))"
  by (simp add: sample_frame_def detect_def box_body_def tally0_def CONFIDENCE_THRESHOLD_def
      is_helmet_def lower_def lower_char_def)

lemma not_violating_empty: "\<not> violating (Frame empty_frame)"
  by (simp add: empty_frame_def sample_frame_def detect_def tally0_def)

lemma sample_filename:
  "snapshot_filename (wall_clock (sample_frame 9 res)) = ''snapshots/no_helmet_20240305_140709.jpg''"
  "snapshot_filename (wall_clock (sample_frame 10 res)) = ''snapshots/no_helmet_20240305_140710.jpg''"
  "snapshot_filename (wall_clock (sample_frame 11 res)) = ''snapshots/no_helmet_20240305_140711.jpg''"
  by (simp_all add: sample_frame_def snapshot_filename_def path_join_def SNAPSHOT_DIR_def
      strftime_def pad4_def pad2_def digit_def)

lemma step_sample:
  "step s (Frame (sample_frame sec res)) =
     Some (s\<lparr>audio_queue := (if audio_queue s = [] then [1] else audio_queue s),
             disk := fst (imwrite (disk s) (snapshot_filename (wall_clock (sample_frame sec res)))
                            (annotated (sample_frame sec res)) res),
             imwrite_calls := imwrite_calls s @ [snapshot_filename (wall_clock (sample_frame sec res))]\<rparr>)"
  using frame_body_violating [OF violating_sample, of s sec res]
  by (simp add: sample_frame_def)

lemma step_empty_frame: "step s (Frame empty_frame) = Some s"
  by (simp add: frame_body_quiet [OF not_violating_empty])

lemma sample_run:
  "\<exists>s2. run booted [Frame (sample_frame 9 Saved), Frame (sample_frame 10 Saved), Worker_Get 100,
                     Worker_Done Returns, Frame (sample_frame 11 Saved), Worker_Get 102,
                     Frame empty_frame] = Some s2
      \<and> alerts s2 = [(100, Sound), (102, Suppressed)]
      \<and> imwrite_calls s2 = [''snapshots/no_helmet_20240305_140709.jpg'',
                             ''snapshots/no_helmet_20240305_140710.jpg'',
                             ''snapshots/no_helmet_20240305_140711.jpg'']"
  by (simp add: step_sample step_empty_frame sample_filename booted_def queue_get_def
      ALERT_COOLDOWN_def initial_last_time_def try_playsound_def del: step.simps(1))

text \<open>
  The two steps of the worker on a request, taken one after the other, do what one
  iteration of its loop does.
\<close>

lemma worker_steps_audio_iter:
  assumes "worker_at s = Waiting" "audio_queue s = x # q"
    "ALERT_COOLDOWN \<le> now - worker_last_time s"
  shows "run s [Worker_Get now, Worker_Done pb]
    = Some (s\<lparr>audio_queue := q, worker_at := Waiting,
              worker_last_time := snd (audio_iter (worker_last_time s) (now, pb)),
              alerts := alerts s @ [(now, fst (audio_iter (worker_last_time s) (now, pb)))]\<rparr>)"
  using assms by (simp add: queue_get_def audio_iter_def)

lemma worker_step_suppressed_audio_iter:
  assumes "worker_at s = Waiting" "audio_queue s = x # q"
    "\<not> ALERT_COOLDOWN \<le> now - worker_last_time s"
  shows "run s [Worker_Get now]
    = Some (s\<lparr>audio_queue := q,
              worker_last_time := snd (audio_iter (worker_last_time s) (now, pb)),
              alerts := alerts s @ [(now, fst (audio_iter (worker_last_time s) (now, pb)))]\<rparr>)"
  using assms by (simp add: queue_get_def audio_iter_def)

text \<open>
  Claim C3. In every state, whatever the queue holds and whatever the worker is doing,
  the frame loop calls \<^verbatim>\<open>cv2.imwrite\<close> once for a frame with a violation at or above
  the threshold and not at all for another frame; so over any run of the program the
  number of snapshot writes is the number of violating frames, however many of their
  alerts were dropped at the queue or suppressed by the cooldown.
\<close>

theorem snapshot_per_violating_frame:
  "(\<exists>s1 r. frame_body s f = Some (s1, r)
       \<and> imwrite_calls s1 = imwrite_calls s
            @ (if violating (Frame f) then [snapshot_filename (wall_clock f)] else []))
   \<and> (run s evs = Some s2 \<longrightarrow>
        length (imwrite_calls s2) = length (imwrite_calls s) + length (filter violating evs))"
proof -
  have one: "\<exists>s1 r. frame_body s f = Some (s1, r)
       \<and> imwrite_calls s1 = imwrite_calls s
            @ (if violating (Frame f) then [snapshot_filename (wall_clock f)] else [])"
  proof (cases "violating (Frame f)")
    case True
    from frame_body_violating [OF True, of s] True show ?thesis by simp
  next
    case False
    from frame_body_quiet [OF False, of s] False show ?thesis by simp
  qed
  have two: "run s evs = Some s2 \<longrightarrow>
        length (imwrite_calls s2) = length (imwrite_calls s) + length (filter violating evs)"
    by (simp add: run_calls)
  from one two show ?thesis ..
qed

theorem snapshot_per_violating_frame_witness:
  "\<exists>s2. run booted [Frame (sample_frame 9 Saved), Frame (sample_frame 10 Saved), Worker_Get 100,
                     Worker_Done Returns, Frame (sample_frame 11 Saved), Worker_Get 102,
                     Frame empty_frame] = Some s2
      \<and> alerts s2 = [(100, Sound), (102, Suppressed)]
      \<and> imwrite_calls s2 = [''snapshots/no_helmet_20240305_140709.jpg'',
                             ''snapshots/no_helmet_20240305_140710.jpg'',
                             ''snapshots/no_helmet_20240305_140711.jpg'']
      \<and> length (imwrite_calls s2) = 3"
proof -
  obtain s2 where r: "run booted [Frame (sample_frame 9 Saved), Frame (sample_frame 10 Saved),
        Worker_Get 100, Worker_Done Returns, Frame (sample_frame 11 Saved), Worker_Get 102,
        Frame empty_frame] = Some s2"
    and a: "alerts s2 = [(100, Sound), (102, Suppressed)]"
    and c: "imwrite_calls s2 = [''snapshots/no_helmet_20240305_140709.jpg'',
                             ''snapshots/no_helmet_20240305_140710.jpg'',
                             ''snapshots/no_helmet_20240305_140711.jpg'']"
    using sample_run by blast
  from snapshot_per_violating_frame [of booted "sample_frame 9 Saved" _ s2] r
  have "length (imwrite_calls s2) = length (imwrite_calls booted)
      + length (filter violating [Frame (sample_frame 9 Saved), Frame (sample_frame 10 Saved),
        Worker_Get 100, Worker_Done Returns, Frame (sample_frame 11 Saved), Worker_Get 102,
        Frame empty_frame])"
    by blast
  then have "length (imwrite_calls s2) = 3"
    by (simp add: booted_def violating_sample not_violating_empty del: violating.simps(1))
  with r a c show ?thesis by blast
qed

section \<open>Properties of the sound manager with several frame loops\<close>







text \<open>
  One loop's test and \<^verbatim>\<open>put\<close>, with nothing in between, do to the queue what
  \<^verbatim>\<open>play_alert\<close> does.
\<close>

lemma test_put_play_alert:
  assumes "\<not> at_put s i"
  shows "slot s = [] \<longrightarrow>
           map_option slot (acts s [Alert_Test i, Alert_Put i]) = play_alert (slot s)"
    and "slot s \<noteq> [] \<longrightarrow> map_option slot (acts s [Alert_Test i]) = play_alert (slot s)"
  using assms
  by (simp_all add: play_alert_def queue_empty_def queue_put_def MAXSIZE_def)

text \<open>
  With two frame loops the second can block: both pass the test on the empty queue, the
  first puts its request, and the \<^verbatim>\<open>put\<close> of the second cannot return until the
  worker has taken that request; then it returns and the second request is queued.
\<close>

lemma second_loop_blocks_in_put:
  "map_option slot (acts sound0 [Alert_Test 0, Alert_Test 1, Alert_Put 0]) = Some [1]"
  "acts sound0 [Alert_Test 0, Alert_Test 1, Alert_Put 0, Alert_Put 1] = None"
  "map_option slot
     (acts sound0 [Alert_Test 0, Alert_Test 1, Alert_Put 0, Queue_Get 100, Alert_Put 1])
     = Some [1]"
  by (simp_all add: sound0_def queue_empty_def queue_put_def queue_get_def MAXSIZE_def
      ALERT_COOLDOWN_def initial_last_time_def)




section \<open>Snapshot write failures\<close>

text \<open>
  Claim C7, as stated, fails: when \<^verbatim>\<open>cv2.imwrite\<close> saves nothing and returns
  \<^verbatim>\<open>False\<close>, the frame loop goes on as after a successful write: it yields the same
  annotated frame, and no error is raised, returned or printed.
\<close>

theorem write_failure_swallowed_counterexample:
  "map_option snd (frame_body booted (sample_frame 9 Not_Saved))
     = Some (Inr (annotated (sample_frame 9 Not_Saved)))
   \<and> map_option snd (frame_body booted (sample_frame 9 Not_Saved))
     = map_option snd (frame_body booted (sample_frame 9 Saved))
   \<and> map_option (imwrite_calls \<circ> fst) (frame_body booted (sample_frame 9 Not_Saved))
     = Some [''snapshots/no_helmet_20240305_140709.jpg'']
   \<and> disk (fst (the (frame_body booted (sample_frame 9 Not_Saved))))
        ''snapshots/no_helmet_20240305_140709.jpg'' = None"
  by (simp add: frame_body_violating [OF violating_sample] sample_filename booted_def
      imwrite_def SNAPSHOT_DIR_def)
    (simp add: sample_frame_def annotated_def)

text \<open>
  Claim C7, amended. The value \<^verbatim>\<open>cv2.imwrite\<close> returns is not read: for a violating
  frame, a write that saves nothing and returns \<^verbatim>\<open>False\<close> leaves the file system as
  it was and the frame is yielded as after a successful write, with no error anywhere.
  Only an exception raised by \<^verbatim>\<open>cv2.imwrite\<close> surfaces: it is not caught and leaves
  the generator instead of the frame.
\<close>

theorem write_failure_not_reported:
  "violating (Frame f) \<longrightarrow>
     (imwrite_does f = Not_Saved \<longrightarrow>
        map_option snd (frame_body s f) = Some (Inr (annotated f))
        \<and> map_option (disk \<circ> fst) (frame_body s f) = Some (disk s))
     \<and> (imwrite_does f = Saved \<longrightarrow>
        map_option snd (frame_body s f) = Some (Inr (annotated f)))
     \<and> (imwrite_does f = Imwrite_Raises \<longrightarrow>
        map_option snd (frame_body s f) = Some (Inl Cv2_Error))"
  by (simp add: frame_body_violating imwrite_def del: violating.simps)

theorem write_failure_not_reported_witness:
  "violating (Frame (sample_frame 9 Not_Saved))
   \<and> imwrite_does (sample_frame 9 Not_Saved) = Not_Saved
   \<and> map_option snd (frame_body booted (sample_frame 9 Not_Saved))
       = Some (Inr (annotated (sample_frame 9 Not_Saved)))
   \<and> violating (Frame (sample_frame 9 Imwrite_Raises))
   \<and> imwrite_does (sample_frame 9 Imwrite_Raises) = Imwrite_Raises
   \<and> map_option snd (frame_body booted (sample_frame 9 Imwrite_Raises)) = Some (Inl Cv2_Error)"
proof -
  have v: "violating (Frame (sample_frame 9 Not_Saved))"
    "violating (Frame (sample_frame 9 Imwrite_Raises))"
    by (rule violating_sample)+
  have i: "imwrite_does (sample_frame 9 Not_Saved) = Not_Saved"
    "imwrite_does (sample_frame 9 Imwrite_Raises) = Imwrite_Raises"
    by (simp_all add: sample_frame_def)
  from write_failure_not_reported [of "sample_frame 9 Not_Saved" booted] v(1) i(1)
  have a: "map_option snd (frame_body booted (sample_frame 9 Not_Saved))
       = Some (Inr (annotated (sample_frame 9 Not_Saved)))"
    by blast
  from write_failure_not_reported [of "sample_frame 9 Imwrite_Raises" booted] v(2) i(2)
  have b: "map_option snd (frame_body booted (sample_frame 9 Imwrite_Raises)) = Some (Inl Cv2_Error)"
    by simp
  from v i a b show ?thesis by blast
qed

end
